theory Spec2Isabelle
  imports Main
begin

section \<open>Strings and the parsed document\<close>

text \<open>
  The module \<^verbatim>\<open>challenge_fetcher/parser.py\<close> works on Python strings and on a
  BeautifulSoup tree. A string is modelled as a \<^typ>\<open>string\<close>: a list of characters
  with code points 0 to 255. Two characters cannot be written inside a HOL string
  literal and get a name: the line feed and the backslash.
\<close>

abbreviation newline :: char where
  "newline \<equiv> CHR 0x0A"

abbreviation backslash :: char where
  "backslash \<equiv> CHR 0x5C"

text \<open>
  A node of the tree is a piece of text (\<^verbatim>\<open>bs4.NavigableString\<close>) or an element
  (\<^verbatim>\<open>bs4.Tag\<close>) with its name, its attribute dictionary and its \<^verbatim>\<open>contents\<close>.
  Comments and the other special strings of BeautifulSoup are not part of the model.
\<close>

datatype node =
    NavigableString string
  | Tag string "(string \<times> string) list" "node list"

text \<open>
  \<^verbatim>\<open>Tag.get(key)\<close> is a dictionary lookup that gives \<^verbatim>\<open>None\<close> for a
  missing key; a text node has no attributes.
\<close>

fun get :: "node \<Rightarrow> string \<Rightarrow> string option" where
  "get (NavigableString s) key = None"
| "get (Tag name attrs contents) key = map_of attrs key"

text \<open>
  \<^verbatim>\<open>.string\<close>: an element with exactly one child has the \<^verbatim>\<open>.string\<close> of that
  child, a text node is its own \<^verbatim>\<open>.string\<close>, and every other element has
  \<^verbatim>\<open>None\<close>.
\<close>

fun tag_string :: "node \<Rightarrow> string option" where
  "tag_string (NavigableString s) = Some s"
| "tag_string (Tag name attrs [child]) = tag_string child"
| "tag_string (Tag name attrs contents) = None"

text \<open>\<^verbatim>\<open>.text\<close>: all the text below a node, joined in document order.\<close>

fun get_text :: "node \<Rightarrow> string" where
  "get_text (NavigableString s) = s"
| "get_text (Tag name attrs contents) = concat (map get_text contents)"

text \<open>
  \<open>strip_prefix p s\<close> is the rest of \<open>s\<close> after the literal \<open>p\<close>, when \<open>s\<close>
  starts with \<open>p\<close>: a literal piece of a regular expression matched at the
  current position.
\<close>

fun strip_prefix :: "string \<Rightarrow> string \<Rightarrow> string option" where
  "strip_prefix [] s = Some s"
| "strip_prefix (p # ps) [] = None"
| "strip_prefix (p # ps) (c # cs) = (if p = c then strip_prefix ps cs else None)"

text \<open>Python's \<^verbatim>\<open>sub in s\<close> on strings.\<close>

fun contains :: "string \<Rightarrow> string \<Rightarrow> bool" where
  "contains sub [] = (sub = [])"
| "contains sub (c # cs) = (strip_prefix sub (c # cs) \<noteq> None \<or> contains sub cs)"

lemma strip_prefix_Some: "strip_prefix p s = Some r \<Longrightarrow> s = p @ r"
  by (induction p s rule: strip_prefix.induct) (auto split: if_splits)

lemma strip_prefix_append: "strip_prefix p (p @ r) = Some r"
  by (induction p) auto

lemma strip_prefix_shorter:
  "strip_prefix p s = Some r \<Longrightarrow> p \<noteq> [] \<Longrightarrow> length r < length s"
  by (drule strip_prefix_Some) simp

text \<open>
  \<^verbatim>\<open>str.replace(old, new)\<close>: the occurrences of \<open>old\<close> are found from left to
  right without overlap. With an empty \<open>old\<close> Python puts \<open>new\<close> before every
  character and at the end.
\<close>

function str_replace :: "string \<Rightarrow> string \<Rightarrow> string \<Rightarrow> string" where
  "str_replace old new s =
     (if old = [] then new @ concat (map (\<lambda>c. c # new) s)
      else (case s of
              [] \<Rightarrow> []
            | c # cs \<Rightarrow>
                (case strip_prefix old s of
                   Some rest \<Rightarrow> new @ str_replace old new rest
                 | None \<Rightarrow> c # str_replace old new cs)))"
  by pat_completeness auto
termination
  by (relation "measure (\<lambda>(old, new, s). length s)")
     (auto dest: strip_prefix_shorter)

section \<open>The link resolver\<close>

subsection \<open>The three regular expressions\<close>

text \<open>
  The character classes of Python's \<^verbatim>\<open>re\<close> on text patterns, for the code points
  0 to 255: \<^verbatim>\<open>\d\<close> is a decimal digit, which in this range is one of 0 to 9;
  \<^verbatim>\<open>\w\<close> is an alphanumeric character or the underscore, which in this range adds
  to the ASCII letters and digits the letters, superscript digits and fractions of
  Latin-1; the dot is every character but the line feed.
\<close>

definition is_digit :: "char \<Rightarrow> bool" where
  "is_digit c = (let n = (of_char c :: nat) in 48 \<le> n \<and> n \<le> 57)"

definition is_word :: "char \<Rightarrow> bool" where
  "is_word c =
     (let n = (of_char c :: nat)
      in (48 \<le> n \<and> n \<le> 57) \<or> (65 \<le> n \<and> n \<le> 90) \<or> n = 95 \<or> (97 \<le> n \<and> n \<le> 122)
         \<or> n = 170 \<or> n = 178 \<or> n = 179 \<or> n = 181 \<or> n = 185 \<or> n = 186
         \<or> n = 188 \<or> n = 189 \<or> n = 190
         \<or> (192 \<le> n \<and> n \<le> 214) \<or> (216 \<le> n \<and> n \<le> 246) \<or> 248 \<le> n)"

definition is_dot :: "char \<Rightarrow> bool" where
  "is_dot c = (c \<noteq> newline)"

text \<open>
  Each expression starts with \<^verbatim>\<open>^\<close> and is used with \<^verbatim>\<open>search\<close> and no flag,
  so it matches at the start of the string only. The model of an expression gives
  \<open>None\<close> when there is no match, and the text of its group when there is one.

  \<^verbatim>\<open>CHALLENGE_URL_REGEX = re.compile(r"^problem=(?P<number>\d+)")\<close>: the greedy
  group is the longest run of digits after the literal.
\<close>

definition CHALLENGE_URL_REGEX :: "string \<Rightarrow> string option" where
  "CHALLENGE_URL_REGEX url =
     (case strip_prefix ''problem='' url of
        None \<Rightarrow> None
      | Some rest \<Rightarrow>
          (let number = takeWhile is_digit rest
           in if number = [] then None else Some number))"

text \<open>\<^verbatim>\<open>ABOUT_URL_REGEX = re.compile(r"^about=(\w+)")\<close>.\<close>

definition ABOUT_URL_REGEX :: "string \<Rightarrow> string option" where
  "ABOUT_URL_REGEX url =
     (case strip_prefix ''about='' url of
        None \<Rightarrow> None
      | Some rest \<Rightarrow>
          (let word = takeWhile is_word rest
           in if word = [] then None else Some word))"

text \<open>
  \<^verbatim>\<open>RESOURCE_URL_REGEX = re.compile(r"^(project\/)?(resources|images)\/(.+\/)?(?P<filename>.+)")\<close>.
  The matcher backtracks, and the model follows it piece by piece.

  The end of the expression, \<^verbatim>\<open>(.+\/)?(?P<filename>.+)\<close>, on the text \<open>r\<close>: the
  greedy \<^verbatim>\<open>.+\<close> of the optional group first takes every character up to the
  line feed, then gives them back one at a time, down to one character, until a slash
  and at least one more character of the line follow. \<open>nested_path k r\<close> tries the
  lengths \<open>k\<close>, \<open>k - 1\<close>, ..., 1 in this order and gives the file name found.
\<close>

fun nested_path :: "nat \<Rightarrow> string \<Rightarrow> string option" where
  "nested_path 0 r = None"
| "nested_path (Suc k) r =
     (case strip_prefix ''/'' (drop (Suc k) r) of
        None \<Rightarrow> nested_path k r
      | Some f \<Rightarrow>
          (let filename = takeWhile is_dot f
           in if filename = [] then nested_path k r else Some filename))"

text \<open>
  When no length works the optional group is left out, and the file name is the
  whole first line of \<open>r\<close>, which must not be empty.
\<close>

definition filename_group :: "string \<Rightarrow> string option" where
  "filename_group r =
     (let line = takeWhile is_dot r
      in case nested_path (length line) r of
           Some filename \<Rightarrow> Some filename
         | None \<Rightarrow> if line = [] then None else Some line)"

text \<open>\<^verbatim>\<open>(resources|images)\/\<close> followed by the end of the expression.\<close>

definition directory_group :: "string \<Rightarrow> string option" where
  "directory_group s =
     (let continue = (\<lambda>r. case strip_prefix ''/'' r of
                              None \<Rightarrow> None
                            | Some r' \<Rightarrow> filename_group r')
      in case (case strip_prefix ''resources'' s of
                 None \<Rightarrow> None
               | Some r \<Rightarrow> continue r) of
           Some filename \<Rightarrow> Some filename
         | None \<Rightarrow>
             (case strip_prefix ''images'' s of
                None \<Rightarrow> None
              | Some r \<Rightarrow> continue r))"

text \<open>The optional \<^verbatim>\<open>(project\/)?\<close> is tried first, and left out when the rest fails.\<close>

definition RESOURCE_URL_REGEX :: "string \<Rightarrow> string option" where
  "RESOURCE_URL_REGEX url =
     (case (case strip_prefix ''project/'' url of
              None \<Rightarrow> None
            | Some s \<Rightarrow> directory_group s) of
        Some filename \<Rightarrow> Some filename
      | None \<Rightarrow> directory_group url)"

subsection \<open>What the module takes from outside\<close>

text \<open>
  \<^verbatim>\<open>challenge_fetcher.scraper.URL_BASE\<close> and \<^verbatim>\<open>CHALLENGE_URL_BASE\<close> are
  constants of the scraper module, and \<^verbatim>\<open>sanitise_file_name\<close> is called by the
  parser but written elsewhere. The model takes the three as parameters: two strings
  and a function from strings to strings.
\<close>

record env =
  URL_BASE :: string
  CHALLENGE_URL_BASE :: string
  sanitise_file_name :: "string \<Rightarrow> string"

subsection \<open>\<^verbatim>\<open>convert_urls_to_markdown\<close>\<close>

text \<open>
  The exceptions the function can raise. \<^verbatim>\<open>TypeError\<close> is what
  \<^verbatim>\<open>search\<close> raises on the \<^verbatim>\<open>None\<close> of a link without \<^verbatim>\<open>href\<close>, and
  \<^verbatim>\<open>AttributeError\<close> what a text node raises on \<^verbatim>\<open>find_all\<close>.
\<close>

datatype error =
    KeyError string
  | NotImplementedError string
  | TypeError
  | AttributeError

text \<open>
  \<^verbatim>\<open>remote_content\<close> is a dictionary that is only ever extended by a key it does
  not hold yet: an association list in insertion order.
\<close>

type_synonym remote_content = "(string \<times> string) list"

text \<open>
  Lines 89 to 144, the chain of \<^verbatim>\<open>if\<close> and \<^verbatim>\<open>elif\<close> on the three matches:
  it gives the new \<^verbatim>\<open>url\<close> and the dictionary, or raises.
\<close>

definition resolve_url :: "env \<Rightarrow> remote_content \<Rightarrow> string \<Rightarrow> error + remote_content \<times> string" where
  "resolve_url env remote_content url =
     (let challenge_match = CHALLENGE_URL_REGEX url;
          resource_match = RESOURCE_URL_REGEX url;
          about_match = ABOUT_URL_REGEX url
      in case challenge_match of
           Some challenge_number \<Rightarrow>
             Inr (remote_content, CHALLENGE_URL_BASE env @ challenge_number)
         | None \<Rightarrow>
             (case resource_match of
                Some filename \<Rightarrow>
                  (let file_name = sanitise_file_name env filename;
                       remote_url = URL_BASE env @ url
                   in if file_name \<in> fst ` set remote_content
                      then Inl (KeyError (''Multiple resources found with the name '' @ file_name))
                      else Inr (remote_content @ [(file_name, remote_url)], ''./'' @ file_name))
              | None \<Rightarrow>
                  (case about_match of
                     Some word \<Rightarrow> Inr (remote_content, URL_BASE env @ url)
                   | None \<Rightarrow>
                       Inl (NotImplementedError
                              (''A URL was found to an unknown resource type: '' @ url)))))"

text \<open>
  \<^verbatim>\<open>f"[{link.string}]({url})"\<close>: a \<^verbatim>\<open>None\<close> is formatted as the word
  \<^verbatim>\<open>None\<close>.
\<close>

definition markdown_link :: "string option \<Rightarrow> string \<Rightarrow> string" where
  "markdown_link link_string url =
     ''['' @ (case link_string of None \<Rightarrow> ''None'' | Some s \<Rightarrow> s) @ '']('' @ url @ '')''"

text \<open>
  The body of the loop for one link: the dictionary after it and the text that
  replaces the link in the tree.
\<close>

definition process_link :: "env \<Rightarrow> remote_content \<Rightarrow> node \<Rightarrow> error + remote_content \<times> string" where
  "process_link env remote_content link =
     (case get link ''href'' of
        None \<Rightarrow> Inl TypeError
      | Some url \<Rightarrow>
          (case resolve_url env remote_content url of
             Inl e \<Rightarrow> Inl e
           | Inr (remote_content', url') \<Rightarrow>
               Inr (remote_content', markdown_link (tag_string link) url')))"

text \<open>
  The loop over the links: an exception ends it at once. The result holds the
  replacement texts in the order of the links.
\<close>

fun convert_links :: "env \<Rightarrow> remote_content \<Rightarrow> node list \<Rightarrow> error + remote_content \<times> string list" where
  "convert_links env remote_content [] = Inr (remote_content, [])"
| "convert_links env remote_content (link # links) =
     (case process_link env remote_content link of
        Inl e \<Rightarrow> Inl e
      | Inr (remote_content', text) \<Rightarrow>
          (case convert_links env remote_content' links of
             Inl e \<Rightarrow> Inl e
           | Inr (remote_content'', texts) \<Rightarrow> Inr (remote_content'', text # texts)))"

text \<open>
  \<^verbatim>\<open>find_all(name)\<close> lists the descendants of an element with that name, in document
  order, before the loop starts. \<open>tags_named\<close> also looks at the node itself.
\<close>

fun tags_named :: "string \<Rightarrow> node \<Rightarrow> node list" where
  "tags_named name (NavigableString s) = []"
| "tags_named name (Tag name' attrs contents) =
     (if name' = name then [Tag name' attrs contents] else [])
       @ concat (map (tags_named name) contents)"

fun find_all :: "node \<Rightarrow> string \<Rightarrow> node list" where
  "find_all (NavigableString s) name = []"
| "find_all (Tag name' attrs contents) name = concat (map (tags_named name) contents)"

text \<open>
  \<^verbatim>\<open>link.replace_with(...)\<close> on a list of sibling nodes, with the replacement texts
  of the links below them in document order. A link is listed before the links inside
  it, so it is replaced while they are still in place: they leave the tree with it,
  and their own replacement happens in the detached link.
\<close>

function replace_links :: "string list \<Rightarrow> node list \<Rightarrow> node list" where
  "replace_links texts [] = []"
| "replace_links texts (NavigableString s # nodes) =
     NavigableString s # replace_links texts nodes"
| "replace_links texts (Tag name attrs contents # nodes) =
     (if name = ''a''
      then (case texts of
              [] \<Rightarrow> Tag name attrs contents
            | text # _ \<Rightarrow> NavigableString text)
           # replace_links (drop (length (tags_named ''a'' (Tag name attrs contents))) texts) nodes
      else Tag name attrs (replace_links texts contents)
           # replace_links (drop (length (tags_named ''a'' (Tag name attrs contents))) texts) nodes)"
  by pat_completeness auto
termination
  by (relation "measure (\<lambda>(texts, nodes). size_list size nodes)") auto

text \<open>
  The function: the mutated block and the returned value, which is \<^verbatim>\<open>None\<close> for
  an empty dictionary.
\<close>

definition convert_urls_to_markdown :: "env \<Rightarrow> node \<Rightarrow> error + node \<times> remote_content option" where
  "convert_urls_to_markdown env content =
     (case content of
        NavigableString s \<Rightarrow> Inl AttributeError
      | Tag name attrs contents \<Rightarrow>
          (case convert_links env [] (find_all content ''a'') of
             Inl e \<Rightarrow> Inl e
           | Inr (remote_content, texts) \<Rightarrow>
               Inr (Tag name attrs (replace_links texts contents),
                    if remote_content = [] then None else Some remote_content)))"

text \<open>
  A link that takes the second branch of the chain, \<^verbatim>\<open>elif resource_match\<close>: the
  only branch that writes to the dictionary.
\<close>

definition resource_reference :: "node \<Rightarrow> bool" where
  "resource_reference link =
     (case get link ''href'' of
        None \<Rightarrow> False
      | Some url \<Rightarrow> CHALLENGE_URL_REGEX url = None \<and> RESOURCE_URL_REGEX url \<noteq> None)"

text \<open>
  The place of a node in the block: \<open>visible_in nodes path\<close> follows the indices of
  \<open>path\<close> through \<^verbatim>\<open>.contents\<close>, from the list \<open>nodes\<close> down, and gives the node
  it ends on. It gives nothing when the way passes through a link: what lies inside
  a link leaves the tree with that link. \<open>visible_at\<close> starts from the contents of
  the block.
\<close>

fun visible_in :: "node list \<Rightarrow> nat list \<Rightarrow> node option" where
  "visible_in nodes [] = None"
| "visible_in nodes [i] = (if i < length nodes then Some (nodes ! i) else None)"
| "visible_in nodes (i # j # path) =
     (if i < length nodes
      then (case nodes ! i of
              NavigableString s \<Rightarrow> None
            | Tag name attrs contents \<Rightarrow>
                if name = ''a'' then None else visible_in contents (j # path))
      else None)"

fun visible_at :: "node \<Rightarrow> nat list \<Rightarrow> node option" where
  "visible_at (NavigableString s) path = None"
| "visible_at (Tag name attrs contents) path = visible_in contents path"

section \<open>The text sanitiser\<close>

text \<open>
  \<^verbatim>\<open>pattern = r"\\operatorname\{(.+?)\}(.+?)="\<close>. Both groups are lazy: a group
  takes one character that is not a line feed, then the rest of the pattern is tried,
  and only when that fails does the group take one more character.

  \<open>match_B acc s\<close> is the part \<^verbatim>\<open>(.+?)=\<close> matched on \<open>s\<close>, with \<open>acc\<close> the
  characters that the group already holds; it gives the group and the text after the
  equals sign.
\<close>

fun match_B :: "string \<Rightarrow> string \<Rightarrow> (string \<times> string) option" where
  "match_B acc [] = None"
| "match_B acc (c # cs) =
     (if c = newline then None
      else (case strip_prefix ''='' cs of
              Some rest \<Rightarrow> Some (acc @ [c], rest)
            | None \<Rightarrow> match_B (acc @ [c]) cs))"

text \<open>\<open>match_A acc s\<close> is the part \<^verbatim>\<open>(.+?)\}(.+?)=\<close> in the same way.\<close>

fun match_A :: "string \<Rightarrow> string \<Rightarrow> (string \<times> string \<times> string) option" where
  "match_A acc [] = None"
| "match_A acc (c # cs) =
     (if c = newline then None
      else (case (case strip_prefix ''}'' cs of
                    Some r \<Rightarrow> match_B [] r
                  | None \<Rightarrow> None) of
              Some (b, rest) \<Rightarrow> Some (acc @ [c], b, rest)
            | None \<Rightarrow> match_A (acc @ [c]) cs))"

text \<open>
  The whole pattern matched at the start of \<open>s\<close>: group 1, group 2 and the text
  after the match.
\<close>

definition pattern_match :: "string \<Rightarrow> (string \<times> string \<times> string) option" where
  "pattern_match s =
     (case strip_prefix (backslash # ''operatorname{'') s of
        None \<Rightarrow> None
      | Some r \<Rightarrow> match_A [] r)"

text \<open>
  \<^verbatim>\<open>replacement = r"\\mathop{\\text{\1}}\2="\<close> expanded for the groups \<open>a\<close> and
  \<open>b\<close>.
\<close>

definition replacement :: "string \<Rightarrow> string \<Rightarrow> string" where
  "replacement a b =
     backslash # ''mathop{'' @ backslash # ''text{'' @ a @ ''}}'' @ b @ ''=''"

lemma match_B_shorter: "match_B acc s = Some (b, rest) \<Longrightarrow> length rest < length s"
proof (induction acc s rule: match_B.induct)
  case (1 acc)
  then show ?case by simp
next
  case (2 acc c cs)
  show ?case
  proof (cases "strip_prefix ''='' cs")
    case None
    with 2 show ?thesis by (auto split: if_splits)
  next
    case (Some r)
    with 2 have "rest = r" by (auto split: if_splits)
    with Some show ?thesis by (auto dest: strip_prefix_Some)
  qed
qed

lemma match_A_shorter: "match_A acc s = Some (a, b, rest) \<Longrightarrow> length rest < length s"
proof (induction acc s rule: match_A.induct)
  case (1 acc)
  then show ?case by simp
next
  case (2 acc c cs)
  show ?case
  proof (cases "case strip_prefix ''}'' cs of Some r \<Rightarrow> match_B [] r | None \<Rightarrow> None")
    case None
    with 2 show ?thesis by (auto split: if_splits)
  next
    case (Some x)
    then obtain r where r: "strip_prefix ''}'' cs = Some r" and x: "match_B [] r = Some x"
      by (auto split: option.splits)
    from 2 Some have "x = (b, rest)" by (auto split: if_splits prod.splits)
    with x have "length rest < length r" by (auto dest: match_B_shorter)
    moreover from r have "length r < length cs" by (auto dest: strip_prefix_Some)
    ultimately show ?thesis by simp
  qed
qed

lemma pattern_match_shorter:
  "pattern_match s = Some (a, b, rest) \<Longrightarrow> length rest < length s"
  unfolding pattern_match_def
  by (auto split: option.splits dest!: match_A_shorter strip_prefix_Some)

text \<open>
  \<^verbatim>\<open>re.sub(pattern, replacement, text)\<close>: the text is scanned from left to right;
  where the pattern matches, the replacement is written and the scan goes on after
  the match; elsewhere the character is copied. The pattern never matches the empty
  string.
\<close>

function re_sub :: "string \<Rightarrow> string" where
  "re_sub s =
     (case pattern_match s of
        Some (a, b, rest) \<Rightarrow> replacement a b @ re_sub rest
      | None \<Rightarrow> (case s of [] \<Rightarrow> [] | c # cs \<Rightarrow> c # re_sub cs))"
  by pat_completeness auto
termination
  by (relation "measure length") (auto dest: pattern_match_shorter)

definition sanitise_tag_text :: "node \<Rightarrow> bool \<Rightarrow> string" where
  "sanitise_tag_text description github_workaround =
     (let description_text = get_text description;
          description_text = str_replace [newline] [CHR '' '', CHR '' '', newline] description_text
      in if github_workaround \<and> contains (backslash # ''operatorname'') description_text
         then re_sub description_text
         else description_text)"

text \<open>
  \<open>unmatched pre s\<close>: in the text \<open>pre @ s\<close> the pattern matches at no position of
  \<open>pre\<close>, so that the scan of \<^verbatim>\<open>re.sub\<close> copies \<open>pre\<close> and reaches \<open>s\<close>.
\<close>

fun unmatched :: "string \<Rightarrow> string \<Rightarrow> bool" where
  "unmatched [] s = True"
| "unmatched (c # cs) s = (pattern_match (c # cs @ s) = None \<and> unmatched cs s)"

section \<open>The file name sanitiser\<close>

text \<open>
  Modelled from the spec: \<^verbatim>\<open>sanitise_file_name\<close> is called on line 112 of the parser
  and its body is not part of the sources. The specification (section 4.1) says that
  it strips the characters that are unsafe in a local path and in a Markdown link, at
  the least the path separators, white space and the characters reserved on common
  file systems, and that the exact set of characters is left open. The model removes
  the characters named by the specification and those of a further set
  \<open>also_unsafe\<close>, which stands for the open choice.
\<close>

definition unsafe_character :: "char \<Rightarrow> bool" where
  "unsafe_character c =
     (c \<in> set (''/'' @ [backslash])
      \<or> c \<in> set [CHR '' '', CHR 0x09, newline, CHR 0x0B, CHR 0x0C, CHR 0x0D]
      \<or> c \<in> set (''<>:|?*'' @ [CHR 0x22]))"

definition sanitise_file_name_spec :: "(char \<Rightarrow> bool) \<Rightarrow> string \<Rightarrow> string" where
  "sanitise_file_name_spec also_unsafe name =
     filter (\<lambda>c. \<not> (unsafe_character c \<or> also_unsafe c)) name"

section \<open>A configuration for the examples\<close>

text \<open>
  The examples below run the link resolver with the addresses of the Project Euler
  site and with a sanitiser that removes the spaces of a file name.
\<close>

definition example_env :: env where
  "example_env =
     \<lparr>URL_BASE = ''https://projecteuler.net/'',
      CHALLENGE_URL_BASE = ''https://projecteuler.net/problem='',
      sanitise_file_name = filter (\<lambda>c. c \<noteq> CHR '' '')\<rparr>"

section \<open>Properties of the link resolver\<close>

subsection \<open>The regular expressions\<close>

lemma CHALLENGE_URL_REGEX_digits:
  assumes "digits \<noteq> []" and "\<forall>c\<in>set digits. is_digit c"
    and "rest = [] \<or> \<not> is_digit (hd rest)"
  shows "CHALLENGE_URL_REGEX (''problem='' @ digits @ rest) = Some digits"
proof -
  have "takeWhile is_digit rest = []"
    using assms(3) by (cases rest) auto
  with assms(2) have "takeWhile is_digit (digits @ rest) = digits"
    by simp
  moreover have "strip_prefix ''problem='' (''problem='' @ digits @ rest) = Some (digits @ rest)"
    by (rule strip_prefix_append)
  ultimately show ?thesis
    using assms(1) by (simp add: CHALLENGE_URL_REGEX_def del: strip_prefix.simps)
qed

lemma RESOURCE_URL_REGEX_start:
  assumes "RESOURCE_URL_REGEX url = Some filename"
  shows "\<exists>t. url = ''project/'' @ t \<or> url = ''resources'' @ t \<or> url = ''images'' @ t"
proof -
  have dir: "\<exists>t. s = ''resources'' @ t \<or> s = ''images'' @ t"
    if "directory_group s = Some f" for s f
    using that unfolding directory_group_def Let_def
    by (auto split: option.splits dest: strip_prefix_Some)
  show ?thesis
  proof (cases "strip_prefix ''project/'' url")
    case None
    with assms have "directory_group url = Some filename"
      by (simp add: RESOURCE_URL_REGEX_def)
    from dir [OF this] show ?thesis by blast
  next
    case (Some s)
    then have "url = ''project/'' @ s" by (rule strip_prefix_Some)
    then show ?thesis by blast
  qed
qed

text \<open>No string matches both the resource and the challenge expression.\<close>

lemma RESOURCE_not_CHALLENGE:
  assumes "RESOURCE_URL_REGEX url = Some filename"
  shows "CHALLENGE_URL_REGEX url = None"
proof -
  from RESOURCE_URL_REGEX_start [OF assms]
  have "strip_prefix ''problem='' url = None" by auto
  then show ?thesis by (simp add: CHALLENGE_URL_REGEX_def)
qed

lemma about_not_CHALLENGE_RESOURCE:
  "CHALLENGE_URL_REGEX (''about='' @ t) = None" "RESOURCE_URL_REGEX (''about='' @ t) = None"
  by (simp_all add: CHALLENGE_URL_REGEX_def RESOURCE_URL_REGEX_def directory_group_def)

lemma ABOUT_URL_REGEX_word:
  assumes "word \<noteq> []" and "\<forall>c\<in>set word. is_word c"
  shows "ABOUT_URL_REGEX (''about='' @ word @ rest) \<noteq> None"
proof -
  from assms obtain c cs where "word = c # cs" "is_word c" by (cases word) auto
  then have "takeWhile is_word (word @ rest) \<noteq> []" by simp
  moreover have "strip_prefix ''about='' (''about='' @ word @ rest) = Some (word @ rest)"
    by (rule strip_prefix_append)
  ultimately show ?thesis
    by (simp add: ABOUT_URL_REGEX_def Let_def del: strip_prefix.simps)
qed

text \<open>
  The shape of a resource address: an optional \<^verbatim>\<open>project/\<close>, one of the two
  directories, a slash, an optional nested path that ends with a slash, and a file
  name without slash. The group \<^verbatim>\<open>filename\<close> is then that file name.
\<close>

lemma takeWhile_is_dot: "newline \<notin> set s \<Longrightarrow> takeWhile is_dot s = s"
  by (induction s) (auto simp: is_dot_def)

lemma nested_path_no_slash: "CHR ''/'' \<notin> set r \<Longrightarrow> nested_path k r = None"
proof (induction k)
  case 0
  show ?case by simp
next
  case (Suc k)
  then have "CHR ''/'' \<notin> set (drop (Suc k) r)" by (auto dest: in_set_dropD)
  then have "strip_prefix ''/'' (drop (Suc k) r) = None"
    by (cases "drop (Suc k) r") auto
  with Suc show ?case by simp
qed

lemma nested_path_last_slash:
  assumes "p \<noteq> []" and "CHR ''/'' \<notin> set f" and "f \<noteq> []" and "newline \<notin> set f"
    and "length p \<le> k"
  shows "nested_path k (p @ ''/'' @ f) = Some f"
  using assms(5)
proof (induction k)
  case 0
  with assms(1) show ?case by simp
next
  case (Suc k)
  have line: "takeWhile is_dot f = f"
    using assms(4) by (rule takeWhile_is_dot)
  show ?case
  proof (cases "length p = Suc k")
    case True
    then have "drop (Suc k) (p @ ''/'' @ f) = ''/'' @ f" by simp
    then show ?thesis using assms(3) by (simp add: line del: drop_append)
  next
    case False
    with Suc.prems have le: "length p \<le> k" by simp
    then have "drop (Suc k) (p @ ''/'' @ f) = drop (k - length p) f"
      by (simp add: Suc_diff_le)
    moreover have "CHR ''/'' \<notin> set (drop (k - length p) f)"
      using assms(2) by (auto dest: in_set_dropD)
    then have "strip_prefix ''/'' (drop (k - length p) f) = None"
      by (cases "drop (k - length p) f") auto
    ultimately show ?thesis using Suc.IH [OF le] by simp
  qed
qed

lemma filename_group_shape:
  assumes "path = [] \<or> (\<exists>p. p \<noteq> [] \<and> path = p @ ''/'')"
    and "newline \<notin> set path"
    and "filename \<noteq> []" and "newline \<notin> set filename" and "CHR ''/'' \<notin> set filename"
  shows "filename_group (path @ filename) = Some filename"
proof -
  from assms(1) show ?thesis
  proof
    assume "path = []"
    with assms(3,4,5) show ?thesis
      by (simp add: filename_group_def nested_path_no_slash takeWhile_is_dot Let_def)
  next
    assume "\<exists>p. p \<noteq> [] \<and> path = p @ ''/''"
    then obtain p where p: "p \<noteq> []" "path = p @ ''/''" by blast
    have line: "takeWhile is_dot (p @ ''/'' @ filename) = p @ ''/'' @ filename"
      using assms(2,4) p by (intro takeWhile_is_dot) simp
    have "nested_path (length (takeWhile is_dot (p @ ''/'' @ filename))) (p @ ''/'' @ filename)
            = Some filename"
      unfolding line using p by (intro nested_path_last_slash assms) simp_all
    then show ?thesis
      unfolding filename_group_def Let_def p(2) append_assoc by simp
  qed
qed

lemma RESOURCE_URL_REGEX_shape:
  assumes "project = [] \<or> project = ''project/''"
    and "directory = ''resources'' \<or> directory = ''images''"
    and "path = [] \<or> (\<exists>p. p \<noteq> [] \<and> path = p @ ''/'')"
    and "newline \<notin> set path"
    and "filename \<noteq> []" and "newline \<notin> set filename" and "CHR ''/'' \<notin> set filename"
  shows "RESOURCE_URL_REGEX (project @ directory @ ''/'' @ path @ filename) = Some filename"
proof -
  note fg = filename_group_shape [OF assms(3-7)]
  have dir: "directory_group (directory @ ''/'' @ path @ filename) = Some filename"
    using assms(2) fg by (auto simp: directory_group_def)
  from assms(1) show ?thesis
  proof
    assume "project = []"
    with assms(2) dir show ?thesis by (auto simp: RESOURCE_URL_REGEX_def)
  next
    assume "project = ''project/''"
    with dir show ?thesis by (simp add: RESOURCE_URL_REGEX_def)
  qed
qed

subsection \<open>One link\<close>

lemma process_link_challenge:
  assumes "get link ''href'' = Some (''problem='' @ digits @ rest)"
    and "digits \<noteq> []" and "\<forall>c\<in>set digits. is_digit c"
    and "rest = [] \<or> \<not> is_digit (hd rest)"
  shows "process_link env remote_content link =
           Inr (remote_content,
                markdown_link (tag_string link) (CHALLENGE_URL_BASE env @ digits))"
  using assms(1) CHALLENGE_URL_REGEX_digits [OF assms(2-4)]
  by (simp add: process_link_def resolve_url_def)

lemma process_link_about:
  assumes "get link ''href'' = Some url"
    and "url = ''about='' @ word @ rest"
    and "word \<noteq> []" and "\<forall>c\<in>set word. is_word c"
  shows "process_link env remote_content link =
           Inr (remote_content, markdown_link (tag_string link) (URL_BASE env @ url))"
proof -
  from ABOUT_URL_REGEX_word [OF assms(3,4)] obtain w where "ABOUT_URL_REGEX url = Some w"
    unfolding assms(2) by blast
  moreover have "CHALLENGE_URL_REGEX url = None" "RESOURCE_URL_REGEX url = None"
    unfolding assms(2) by (rule about_not_CHALLENGE_RESOURCE)+
  ultimately show ?thesis
    using assms(1) by (simp add: process_link_def resolve_url_def)
qed

lemma process_link_resource:
  assumes "get link ''href'' = Some url"
    and "RESOURCE_URL_REGEX url = Some filename"
  shows "process_link env remote_content link =
           (if sanitise_file_name env filename \<in> fst ` set remote_content
            then Inl (KeyError (''Multiple resources found with the name ''
                                  @ sanitise_file_name env filename))
            else Inr (remote_content @ [(sanitise_file_name env filename, URL_BASE env @ url)],
                      markdown_link (tag_string link) (''./'' @ sanitise_file_name env filename)))"
  using assms RESOURCE_not_CHALLENGE [OF assms(2)]
  by (simp add: process_link_def resolve_url_def Let_def)

lemma process_link_unknown:
  assumes "get link ''href'' = Some url"
    and "CHALLENGE_URL_REGEX url = None" and "RESOURCE_URL_REGEX url = None"
    and "ABOUT_URL_REGEX url = None"
  shows "process_link env remote_content link =
           Inl (NotImplementedError (''A URL was found to an unknown resource type: '' @ url))"
  using assms by (simp add: process_link_def resolve_url_def)

text \<open>A link only ever adds to the end of the dictionary, and never a key twice.\<close>

lemma process_link_keys:
  assumes "process_link env rc link = Inr (rc', t)"
  shows "\<exists>added. rc' = rc @ added \<and> (distinct (map fst rc) \<longrightarrow> distinct (map fst rc'))"
  using assms
  by (auto simp: process_link_def resolve_url_def Let_def
           split: option.splits sum.splits if_splits)

lemma process_link_manifest:
  assumes "process_link env rc link = Inr (rc', t)"
  shows "if resource_reference link then rc' \<noteq> [] else rc' = rc"
  using assms
  by (auto simp: process_link_def resolve_url_def resource_reference_def Let_def
           split: option.splits sum.splits if_splits)

subsection \<open>The loop\<close>

lemma convert_links_append:
  "convert_links env rc (xs @ ys) =
     (case convert_links env rc xs of
        Inl e \<Rightarrow> Inl e
      | Inr (rc1, ts1) \<Rightarrow>
          (case convert_links env rc1 ys of
             Inl e \<Rightarrow> Inl e
           | Inr (rc2, ts2) \<Rightarrow> Inr (rc2, ts1 @ ts2)))"
  by (induction xs arbitrary: rc) (auto split: sum.splits)

lemma convert_links_split:
  assumes "convert_links env rc (before @ link # after) = Inr (rc', texts)"
  obtains rc1 ts1 rc2 t ts2 where
    "convert_links env rc before = Inr (rc1, ts1)"
    "process_link env rc1 link = Inr (rc2, t)"
    "convert_links env rc2 after = Inr (rc', ts2)"
    "texts = ts1 @ t # ts2"
  using assms by (auto simp: convert_links_append split: sum.splits)

lemma convert_links_keys:
  assumes "convert_links env rc links = Inr (rc', texts)"
  shows "\<exists>added. rc' = rc @ added \<and> (distinct (map fst rc) \<longrightarrow> distinct (map fst rc'))"
  using assms
proof (induction links arbitrary: rc texts)
  case Nil
  then show ?case by simp
next
  case (Cons link links)
  from Cons.prems obtain rc1 t ts where
    1: "process_link env rc link = Inr (rc1, t)" and
    2: "convert_links env rc1 links = Inr (rc', ts)"
    by (auto split: sum.splits)
  from process_link_keys [OF 1] Cons.IH [OF 2] show ?case by auto
qed

lemma convert_links_manifest:
  assumes "convert_links env rc links = Inr (rc', texts)"
  shows "rc' = [] \<longleftrightarrow> rc = [] \<and> (\<forall>link\<in>set links. \<not> resource_reference link)"
  using assms
proof (induction links arbitrary: rc texts)
  case Nil
  then show ?case by auto
next
  case (Cons link links)
  from Cons.prems obtain rc1 t ts where
    1: "process_link env rc link = Inr (rc1, t)" and
    2: "convert_links env rc1 links = Inr (rc', ts)"
    by (auto split: sum.splits)
  from process_link_keys [OF 1] obtain added where "rc1 = rc @ added" by auto
  with process_link_manifest [OF 1] Cons.IH [OF 2] show ?case
    by (auto split: if_splits)
qed

lemma convert_links_collision:
  assumes "convert_links env rc0 (before @ link1 # between) = Inr (rc, texts)"
    and "get link1 ''href'' = Some url1" and "RESOURCE_URL_REGEX url1 = Some filename1"
    and "get link2 ''href'' = Some url2" and "RESOURCE_URL_REGEX url2 = Some filename2"
    and "sanitise_file_name env filename1 = sanitise_file_name env filename2"
  shows "convert_links env rc0 ((before @ link1 # between) @ link2 # after) =
           Inl (KeyError (''Multiple resources found with the name ''
                            @ sanitise_file_name env filename2))"
proof -
  from assms(1) obtain rc1 ts1 rc2 t ts2 where
    1: "convert_links env rc0 before = Inr (rc1, ts1)" and
    2: "process_link env rc1 link1 = Inr (rc2, t)" and
    3: "convert_links env rc2 between = Inr (rc, ts2)"
    by (rule convert_links_split)
  from 2 process_link_resource [OF assms(2,3), of env rc1]
  have "sanitise_file_name env filename1 \<in> fst ` set rc2"
    by (auto split: if_splits)
  moreover from convert_links_keys [OF 3] obtain added where "rc = rc2 @ added" by auto
  ultimately have "sanitise_file_name env filename2 \<in> fst ` set rc"
    using assms(6) by auto
  then have "process_link env rc link2 =
               Inl (KeyError (''Multiple resources found with the name ''
                                @ sanitise_file_name env filename2))"
    using process_link_resource [OF assms(4,5), of env rc] by simp
  with assms(1) show ?thesis
    by (simp add: convert_links_append del: append_assoc)
qed

lemma convert_urls_to_markdown_Inr:
  assumes "convert_urls_to_markdown env content = Inr (content', result)"
  obtains remote_content texts where
    "convert_links env [] (find_all content ''a'') = Inr (remote_content, texts)"
    "result = (if remote_content = [] then None else Some remote_content)"
  using assms
  by (auto simp: convert_urls_to_markdown_def split: node.splits sum.splits)

lemma convert_urls_to_markdown_Inl:
  assumes "convert_links env [] (find_all content ''a'') = Inl e"
    and "find_all content ''a'' \<noteq> []"
  shows "convert_urls_to_markdown env content = Inl e"
  using assms by (cases content) (auto simp: convert_urls_to_markdown_def)

subsection \<open>The block after the call\<close>

lemma visible_in_Cons_Suc: "visible_in (x # nodes) (Suc k # path) = visible_in nodes (k # path)"
  by (cases path) simp_all

lemma visible_in_Nil: "visible_in [] path = None"
  by (induction "[] :: node list" path rule: visible_in.induct) simp_all

lemma replace_links_visible:
  assumes "\<forall>j < length (concat (map (tags_named ''a'') nodes)).
             j < length texts \<and> R (concat (map (tags_named ''a'') nodes) ! j) (texts ! j)"
    and "visible_in nodes path = Some (Tag ''a'' attrs cs)"
  shows "\<exists>t. visible_in (replace_links texts nodes) path = Some (NavigableString t)
           \<and> R (Tag ''a'' attrs cs) t"
  using assms
proof (induction texts nodes arbitrary: path rule: replace_links.induct)
  case (1 texts)
  then show ?case by (simp add: visible_in_Nil)
next
  case (2 texts s nodes)
  from "2.prems"(2) obtain i p where path: "path = i # p" by (cases path) auto
  from "2.prems"(2) path obtain k where i: "i = Suc k"
    by (cases i; cases p) (auto split: if_splits)
  with "2.prems" path have "visible_in nodes (k # p) = Some (Tag ''a'' attrs cs)"
    by (simp add: visible_in_Cons_Suc)
  from "2.IH" [OF _ this] "2.prems"(1) path i show ?case
    by (simp add: visible_in_Cons_Suc)
next
  case (3 texts name attrs0 contents nodes)
  let ?node = "Tag name attrs0 contents"
  let ?own = "tags_named ''a'' ?node"
  let ?rest = "concat (map (tags_named ''a'') nodes)"
  let ?n = "length ?own"
  have all: "\<forall>j < ?n + length ?rest. j < length texts \<and> R ((?own @ ?rest) ! j) (texts ! j)"
    using "3.prems"(1) by simp
  have rest: "\<forall>j < length ?rest. j < length (drop ?n texts) \<and> R (?rest ! j) (drop ?n texts ! j)"
  proof (intro allI impI)
    fix j assume "j < length ?rest"
    with all have "?n + j < length texts" "R ((?own @ ?rest) ! (?n + j)) (texts ! (?n + j))"
      by auto
    then show "j < length (drop ?n texts) \<and> R (?rest ! j) (drop ?n texts ! j)"
      by (simp add: nth_append)
  qed
  from "3.prems"(2) obtain i p where path: "path = i # p" by (cases path) auto
  show ?case
  proof (cases i)
    case (Suc k)
    with path "3.prems"(2) have v: "visible_in nodes (k # p) = Some (Tag ''a'' attrs cs)"
      by (simp only: visible_in_Cons_Suc)
    show ?thesis
    proof (cases "name = ''a''")
      case True
      from "3.IH"(1) [OF True rest v] path Suc True show ?thesis
        by (simp add: visible_in_Cons_Suc del: visible_in.simps)
    next
      case False
      from "3.IH"(3) [OF False rest v] path Suc False show ?thesis
        by (simp add: visible_in_Cons_Suc del: visible_in.simps)
    qed
  next
    case 0
    show ?thesis
    proof (cases p)
      case Nil
      with 0 path "3.prems"(2) have node: "name = ''a''" "attrs0 = attrs" "contents = cs"
        by auto
      with all have "0 < length texts" "R (Tag ''a'' attrs cs) (texts ! 0)"
        by (auto dest: spec [of _ 0])
      then obtain t ts where "texts = t # ts" "R (Tag ''a'' attrs cs) t"
        by (cases texts) auto
      with Nil 0 path node show ?thesis by simp
    next
      case (Cons j q)
      with 0 path "3.prems"(2) have name: "name \<noteq> ''a''"
        and v: "visible_in contents (j # q) = Some (Tag ''a'' attrs cs)"
        by (auto split: if_splits)
      from name have own: "?own = concat (map (tags_named ''a'') contents)" by simp
      have "\<forall>m < length (concat (map (tags_named ''a'') contents)).
              m < length texts \<and> R (concat (map (tags_named ''a'') contents) ! m) (texts ! m)"
      proof (intro allI impI)
        fix m assume m: "m < length (concat (map (tags_named ''a'') contents))"
        with all own have "m < length texts \<and> R ((?own @ ?rest) ! m) (texts ! m)" by auto
        with m own show "m < length texts
            \<and> R (concat (map (tags_named ''a'') contents) ! m) (texts ! m)"
          by (simp add: nth_append)
      qed
      from "3.IH"(2) [OF name this v] Cons 0 path name show ?thesis by simp
    qed
  qed
qed

text \<open>Every text of the loop is what the body of the loop gave for its link.\<close>

lemma convert_links_texts:
  assumes "convert_links env rc links = Inr (rc', texts)"
  shows "length texts = length links
       \<and> (\<forall>j < length links. \<exists>r r'. process_link env r (links ! j) = Inr (r', texts ! j))"
  using assms
proof (induction links arbitrary: rc texts)
  case Nil
  then show ?case by simp
next
  case (Cons link links)
  from Cons.prems obtain rc1 t ts where
    1: "process_link env rc link = Inr (rc1, t)" and
    2: "convert_links env rc1 links = Inr (rc', ts)" and
    3: "texts = t # ts"
    by (auto split: sum.splits)
  from Cons.IH [OF 2] 1 3 show ?case
    by (auto simp: nth_Cons split: nat.splits)
qed

text \<open>
  A link that is visible in the block is, in the block after the call, the text that
  the body of the loop gave for it.
\<close>

lemma visible_link_replaced:
  assumes "convert_urls_to_markdown env content = Inr (content', result)"
    and "visible_at content path = Some (Tag ''a'' attrs cs)"
  shows "\<exists>t r r'. visible_at content' path = Some (NavigableString t)
           \<and> process_link env r (Tag ''a'' attrs cs) = Inr (r', t)"
proof -
  from assms(2) obtain name attrs0 contents where content: "content = Tag name attrs0 contents"
    by (cases content) auto
  from assms(1) obtain remote_content texts where
    run: "convert_links env [] (concat (map (tags_named ''a'') contents)) = Inr (remote_content, texts)"
    and content': "content' = Tag name attrs0 (replace_links texts contents)"
    unfolding content by (auto simp: convert_urls_to_markdown_def split: sum.splits)
  let ?R = "\<lambda>link t. \<exists>r r'. process_link env r link = Inr (r', t)"
  from convert_links_texts [OF run]
  have "\<forall>j < length (concat (map (tags_named ''a'') contents)).
          j < length texts \<and> ?R (concat (map (tags_named ''a'') contents) ! j) (texts ! j)"
    by simp
  moreover from assms(2) content have "visible_in contents path = Some (Tag ''a'' attrs cs)"
    by simp
  ultimately have "\<exists>t. visible_in (replace_links texts contents) path = Some (NavigableString t)
                     \<and> ?R (Tag ''a'' attrs cs) t"
    by (rule replace_links_visible)
  with content' show ?thesis by auto
qed

text \<open>Every address in the dictionary is \<^verbatim>\<open>URL_BASE\<close> followed by a resource address.\<close>

lemma process_link_step:
  assumes "process_link env rc link = Inr (rc', t)"
  shows "rc' = rc
       \<or> (\<exists>k url. rc' = rc @ [(k, URL_BASE env @ url)] \<and> RESOURCE_URL_REGEX url \<noteq> None)"
  using assms
  by (auto simp: process_link_def resolve_url_def Let_def
           split: option.splits sum.splits if_splits)

lemma process_link_values:
  assumes "process_link env rc link = Inr (rc', t)"
    and "\<forall>v\<in>snd ` set rc. \<exists>u. v = URL_BASE env @ u \<and> RESOURCE_URL_REGEX u \<noteq> None"
  shows "\<forall>v\<in>snd ` set rc'. \<exists>u. v = URL_BASE env @ u \<and> RESOURCE_URL_REGEX u \<noteq> None"
proof -
  from process_link_step [OF assms(1)] show ?thesis
  proof
    assume "rc' = rc"
    with assms(2) show ?thesis by simp
  next
    assume "\<exists>k url. rc' = rc @ [(k, URL_BASE env @ url)] \<and> RESOURCE_URL_REGEX url \<noteq> None"
    then obtain k url where "rc' = rc @ [(k, URL_BASE env @ url)]"
      and "RESOURCE_URL_REGEX url \<noteq> None" by blast
    with assms(2) show ?thesis by force
  qed
qed

lemma convert_links_values:
  assumes "convert_links env rc links = Inr (rc', texts)"
    and "\<forall>v\<in>snd ` set rc. \<exists>u. v = URL_BASE env @ u \<and> RESOURCE_URL_REGEX u \<noteq> None"
  shows "\<forall>v\<in>snd ` set rc'. \<exists>u. v = URL_BASE env @ u \<and> RESOURCE_URL_REGEX u \<noteq> None"
  using assms
proof (induction links arbitrary: rc texts)
  case Nil
  then show ?case by simp
next
  case (Cons link links)
  from Cons.prems(1) obtain rc1 t ts where
    1: "process_link env rc link = Inr (rc1, t)" and
    2: "convert_links env rc1 links = Inr (rc', ts)"
    by (auto split: sum.splits)
  from Cons.IH [OF 2 process_link_values [OF 1 Cons.prems(2)]] show ?case .
qed

lemmas resolver_defs =
  convert_urls_to_markdown_def process_link_def resolve_url_def markdown_link_def
  CHALLENGE_URL_REGEX_def RESOURCE_URL_REGEX_def ABOUT_URL_REGEX_def
  directory_group_def filename_group_def is_digit_def is_word_def is_dot_def
  resource_reference_def example_env_def Let_def

subsection \<open>The claims on single links\<close>

text \<open>
  The next theorems look at a call of \<open>convert_urls_to_markdown\<close> that returns the
  block \<open>content'\<close> and the value \<open>result\<close>, and at a link that is visible in the
  block \<open>content\<close> at \<open>path\<close>. They say what stands at \<open>path\<close> in \<open>content'\<close>.
\<close>

text \<open>
  Claim C4. A link whose \<^verbatim>\<open>href\<close> is \<^verbatim>\<open>problem=\<close>, then one or more decimal
  digits, then a rest that does not start with a digit, is replaced in the block by the
  Markdown link whose target is \<^verbatim>\<open>CHALLENGE_URL_BASE\<close> followed by exactly these
  digits, character for character: no leading zero is dropped and no number is
  computed.
\<close>

theorem challenge_link_rewritten:
  assumes "convert_urls_to_markdown env content = Inr (content', result)"
    and "visible_at content path = Some link"
    and "link = Tag ''a'' attrs contents"
    and "map_of attrs ''href'' = Some (''problem='' @ digits @ rest)"
    and "digits \<noteq> []" and "\<forall>c\<in>set digits. is_digit c"
    and "rest = [] \<or> \<not> is_digit (hd rest)"
  shows "visible_at content' path =
           Some (NavigableString
                   (''['' @ (case tag_string link of None \<Rightarrow> ''None'' | Some s \<Rightarrow> s)
                      @ '']('' @ CHALLENGE_URL_BASE env @ digits @ '')''))"
proof -
  from assms(1,2) obtain t r r' where
    1: "visible_at content' path = Some (NavigableString t)" and
    2: "process_link env r link = Inr (r', t)"
    unfolding assms(3) by (blast dest: visible_link_replaced)
  have "get link ''href'' = Some (''problem='' @ digits @ rest)"
    using assms(3,4) by simp
  from process_link_challenge [OF this assms(5-7), of env r] 1 2 show ?thesis
    by (simp add: markdown_link_def)
qed

theorem challenge_link_rewritten_witness:
  "\<exists>content' result.
     convert_urls_to_markdown example_env
       (Tag ''div'' [] [NavigableString ''See '',
          Tag ''p'' [] [Tag ''a'' [(''href'', ''problem=007'')] [NavigableString ''P7'']]])
       = Inr (content', result)
     \<and> visible_at content' [1, 0]
         = Some (NavigableString ''[P7](https://projecteuler.net/problem=007)'')"
proof -
  let ?link = "Tag ''a'' [(''href'', ''problem=007'')] [NavigableString ''P7'']"
  let ?content = "Tag ''div'' [] [NavigableString ''See '', Tag ''p'' [] [?link]]"
  let ?content' = "Tag ''div'' [] [NavigableString ''See '',
                     Tag ''p'' [] [NavigableString ''[P7](https://projecteuler.net/problem=007)'']]"
  have 1: "convert_urls_to_markdown example_env ?content = Inr (?content', None)"
    by (simp add: resolver_defs)
  have 2: "visible_at ?content [1, 0] = Some ?link" by simp
  have 3: "map_of [(''href'', ''problem=007'')] ''href'' = Some (''problem='' @ ''007'' @ [])"
    by simp
  have 4: "''007'' \<noteq> []" "\<forall>c\<in>set ''007''. is_digit c" "[] = [] \<or> \<not> is_digit (hd [])"
    by (simp_all add: is_digit_def)
  from challenge_link_rewritten [OF 1 2 refl 3 4]
  have "visible_at ?content' [1, 0]
          = Some (NavigableString ''[P7](https://projecteuler.net/problem=007)'')"
    by (simp add: example_env_def)
  with 1 show ?thesis by blast
qed

text \<open>
  Claim C1. Take a link of the block whose \<^verbatim>\<open>href\<close> matches the resource
  expression, with the file name \<open>filename\<close> in its group. The returned dictionary
  maps the sanitised file name to \<^verbatim>\<open>URL_BASE\<close> followed by the \<^verbatim>\<open>href\<close> as it
  was, and wherever the link is visible in the block it is replaced by the Markdown
  link whose target is \<^verbatim>\<open>./\<close> followed by the sanitised file name. The lemma
  \<open>RESOURCE_URL_REGEX_shape\<close> shows that the addresses of the shape the claim
  describes match, with their last component as \<open>filename\<close>.
\<close>

theorem resource_link_rewritten:
  assumes "convert_urls_to_markdown env content = Inr (content', result)"
    and "link \<in> set (find_all content ''a'')"
    and "link = Tag ''a'' attrs contents"
    and "map_of attrs ''href'' = Some url"
    and "RESOURCE_URL_REGEX url = Some filename"
    and "file_name = sanitise_file_name env filename"
  shows "(\<exists>remote_content. result = Some remote_content
            \<and> map_of remote_content file_name = Some (URL_BASE env @ url))
       \<and> (\<forall>path. visible_at content path = Some link \<longrightarrow>
            visible_at content' path =
              Some (NavigableString
                      (''['' @ (case tag_string link of None \<Rightarrow> ''None'' | Some s \<Rightarrow> s)
                         @ ''](./'' @ file_name @ '')'')))"
proof -
  have href: "get link ''href'' = Some url" using assms(3,4) by simp
  from assms(1) obtain remote_content texts where
    run: "convert_links env [] (find_all content ''a'') = Inr (remote_content, texts)" and
    res: "result = (if remote_content = [] then None else Some remote_content)"
    by (rule convert_urls_to_markdown_Inr)
  from assms(2) obtain before after where "find_all content ''a'' = before @ link # after"
    by (auto dest: split_list)
  with run obtain rc1 ts1 rc2 t ts2 where
    1: "convert_links env [] before = Inr (rc1, ts1)" and
    2: "process_link env rc1 link = Inr (rc2, t)" and
    3: "convert_links env rc2 after = Inr (remote_content, ts2)"
    by (auto elim: convert_links_split)
  let ?entry = "(file_name, URL_BASE env @ url)"
  from 2 process_link_resource [OF href assms(5), of env rc1]
  have new: "file_name \<notin> fst ` set rc1" and rc2: "rc2 = rc1 @ [?entry]"
    by (auto simp: assms(6) split: if_splits)
  from convert_links_keys [OF 1] have "distinct (map fst rc1)" by auto
  with new rc2 have d2: "distinct (map fst rc2)" by auto
  from convert_links_keys [OF 3] d2 obtain added where
    final: "remote_content = rc2 @ added" and "distinct (map fst remote_content)"
    by auto
  with rc2 have "map_of remote_content file_name = Some (URL_BASE env @ url)"
    by (intro map_of_is_SomeI) auto
  moreover from final rc2 res have "result = Some remote_content" by simp
  ultimately have manifest: "\<exists>remote_content. result = Some remote_content
            \<and> map_of remote_content file_name = Some (URL_BASE env @ url)"
    by blast
  have "visible_at content' path =
          Some (NavigableString
                  (''['' @ (case tag_string link of None \<Rightarrow> ''None'' | Some s \<Rightarrow> s)
                     @ ''](./'' @ file_name @ '')''))"
    if "visible_at content path = Some link" for path
  proof -
    from assms(1) that obtain t r r' where
      v: "visible_at content' path = Some (NavigableString t)" and
      p: "process_link env r link = Inr (r', t)"
      unfolding assms(3) by (blast dest: visible_link_replaced)
    from p process_link_resource [OF href assms(5), of env r]
    have "t = markdown_link (tag_string link) (''./'' @ file_name)"
      by (auto simp: assms(6) split: if_splits)
    with v show ?thesis by (simp add: markdown_link_def)
  qed
  with manifest show ?thesis by blast
qed

theorem resource_link_rewritten_witness:
  "\<exists>content'.
     convert_urls_to_markdown example_env
       (Tag ''div'' []
          [Tag ''p'' [] [Tag ''a'' [(''href'', ''project/resources/img/my plot.png'')]
                           [NavigableString ''plot'']],
           Tag ''a'' [(''href'', ''about=puzzle'')] [NavigableString ''about'']])
       = Inr (content',
              Some [(''myplot.png'',
                     ''https://projecteuler.net/project/resources/img/my plot.png'')])
     \<and> visible_at content' [0, 0] = Some (NavigableString ''[plot](./myplot.png)'')"
proof -
  let ?about = "Tag ''a'' [(''href'', ''about=puzzle'')] [NavigableString ''about'']"
  let ?link = "Tag ''a'' [(''href'', ''project/resources/img/my plot.png'')]
                 [NavigableString ''plot'']"
  let ?content = "Tag ''div'' [] [Tag ''p'' [] [?link], ?about]"
  let ?content' = "Tag ''div'' []
                    [Tag ''p'' [] [NavigableString ''[plot](./myplot.png)''],
                     NavigableString ''[about](https://projecteuler.net/about=puzzle)'']"
  have 1: "convert_urls_to_markdown example_env ?content =
             Inr (?content',
                  Some [(''myplot.png'',
                         ''https://projecteuler.net/project/resources/img/my plot.png'')])"
    by (simp add: resolver_defs)
  have 2: "?link \<in> set (find_all ?content ''a'')" by simp
  have 3: "map_of [(''href'', ''project/resources/img/my plot.png'')] ''href''
             = Some ''project/resources/img/my plot.png''" by simp
  have 4: "RESOURCE_URL_REGEX ''project/resources/img/my plot.png'' = Some ''my plot.png''"
    using RESOURCE_URL_REGEX_shape
      [of "''project/''" "''resources''" "''img/''" "''my plot.png''"]
    by simp
  have 5: "''myplot.png'' = sanitise_file_name example_env ''my plot.png''"
    by (simp add: example_env_def)
  have 6: "visible_at ?content [0, 0] = Some ?link" by simp
  from resource_link_rewritten [OF 1 2 refl 3 4 5] 6
  have "visible_at ?content' [0, 0] = Some (NavigableString ''[plot](./myplot.png)'')"
    by simp
  with 1 show ?thesis by blast
qed

text \<open>
  Claim C5. A link whose \<^verbatim>\<open>href\<close> is \<^verbatim>\<open>about=\<close>, then one or more word
  characters, then any rest, is replaced in the block by the Markdown link whose target
  is \<^verbatim>\<open>URL_BASE\<close> followed by the \<^verbatim>\<open>href\<close> as it was, and a returned dictionary
  has no entry for that address.
\<close>

theorem about_link_rewritten:
  assumes "convert_urls_to_markdown env content = Inr (content', result)"
    and "visible_at content path = Some link"
    and "link = Tag ''a'' attrs contents"
    and "map_of attrs ''href'' = Some url"
    and "url = ''about='' @ word @ rest"
    and "word \<noteq> []" and "\<forall>c\<in>set word. is_word c"
  shows "visible_at content' path =
           Some (NavigableString
                   (''['' @ (case tag_string link of None \<Rightarrow> ''None'' | Some s \<Rightarrow> s)
                      @ '']('' @ URL_BASE env @ url @ '')''))
       \<and> (\<forall>remote_content. result = Some remote_content \<longrightarrow>
            URL_BASE env @ url \<notin> snd ` set remote_content)"
proof -
  have href: "get link ''href'' = Some url" using assms(3,4) by simp
  from assms(1,2) obtain t r r' where
    1: "visible_at content' path = Some (NavigableString t)" and
    2: "process_link env r link = Inr (r', t)"
    unfolding assms(3) by (blast dest: visible_link_replaced)
  from process_link_about [OF href assms(5-7), of env r] 1 2
  have tree: "visible_at content' path =
           Some (NavigableString
                   (''['' @ (case tag_string link of None \<Rightarrow> ''None'' | Some s \<Rightarrow> s)
                      @ '']('' @ URL_BASE env @ url @ '')''))"
    by (simp add: markdown_link_def)
  from assms(1) obtain remote_content texts where
    run: "convert_links env [] (find_all content ''a'') = Inr (remote_content, texts)" and
    res: "result = (if remote_content = [] then None else Some remote_content)"
    by (rule convert_urls_to_markdown_Inr)
  have no: "RESOURCE_URL_REGEX url = None"
    unfolding assms(5) by (rule about_not_CHALLENGE_RESOURCE)
  from convert_links_values [OF run]
  have "\<forall>v\<in>snd ` set remote_content. \<exists>u. v = URL_BASE env @ u \<and> RESOURCE_URL_REGEX u \<noteq> None"
    by simp
  with no have "URL_BASE env @ url \<notin> snd ` set remote_content" by fastforce
  with res tree show ?thesis by (auto split: if_splits)
qed

theorem about_link_rewritten_witness:
  "\<exists>content'.
     convert_urls_to_markdown example_env
       (Tag ''div'' []
          [Tag ''a'' [(''href'', ''images/x.png'')] [NavigableString ''x''],
           Tag ''a'' [(''href'', ''about=puzzle&x'')] [NavigableString ''about'']])
       = Inr (content', Some [(''x.png'', ''https://projecteuler.net/images/x.png'')])
     \<and> visible_at content' [1]
         = Some (NavigableString ''[about](https://projecteuler.net/about=puzzle&x)'')"
proof -
  let ?x = "Tag ''a'' [(''href'', ''images/x.png'')] [NavigableString ''x'']"
  let ?link = "Tag ''a'' [(''href'', ''about=puzzle&x'')] [NavigableString ''about'']"
  let ?content = "Tag ''div'' [] [?x, ?link]"
  let ?content' = "Tag ''div'' []
                    [NavigableString ''[x](./x.png)'',
                     NavigableString ''[about](https://projecteuler.net/about=puzzle&x)'']"
  have 1: "convert_urls_to_markdown example_env ?content =
             Inr (?content', Some [(''x.png'', ''https://projecteuler.net/images/x.png'')])"
    by (simp add: resolver_defs)
  have 2: "visible_at ?content [1] = Some ?link" by simp
  have 3: "map_of [(''href'', ''about=puzzle&x'')] ''href'' = Some ''about=puzzle&x''" by simp
  have 4: "''about=puzzle&x'' = ''about='' @ ''puzzle'' @ ''&x''" by simp
  have 5: "''puzzle'' \<noteq> []" "\<forall>c\<in>set ''puzzle''. is_word c"
    by (simp_all add: is_word_def)
  from about_link_rewritten [OF 1 2 refl 3 4 5]
  have "visible_at ?content' [1]
          = Some (NavigableString ''[about](https://projecteuler.net/about=puzzle&x)'')"
    by (simp add: example_env_def)
  with 1 show ?thesis by blast
qed

text \<open>
  Claim C10. A link element with no child or with more than one child has no
  \<^verbatim>\<open>.string\<close>. In the block after the call it is replaced by a Markdown link that
  shows the four characters \<^verbatim>\<open>None\<close> between the square brackets, and nothing of
  what the element contains; the target is what its \<^verbatim>\<open>href\<close> resolves to.
\<close>

theorem link_without_string_shows_None:
  assumes "convert_urls_to_markdown env content = Inr (content', result)"
    and "visible_at content path = Some (Tag ''a'' attrs contents)"
    and "length contents \<noteq> 1"
  shows "\<exists>url rc rc' target.
           map_of attrs ''href'' = Some url
         \<and> resolve_url env rc url = Inr (rc', target)
         \<and> visible_at content' path = Some (NavigableString (''[None]('' @ target @ '')''))"
proof -
  have none: "tag_string (Tag ''a'' attrs contents) = None"
  proof (cases contents)
    case Nil
    then show ?thesis by simp
  next
    case (Cons c cs)
    with assms(3) obtain d ds where "cs = d # ds" by (cases cs) auto
    with Cons show ?thesis by simp
  qed
  from assms(1,2) obtain t r r' where
    1: "visible_at content' path = Some (NavigableString t)" and
    2: "process_link env r (Tag ''a'' attrs contents) = Inr (r', t)"
    by (blast dest: visible_link_replaced)
  from 2 none obtain url target where
    "map_of attrs ''href'' = Some url" "resolve_url env r url = Inr (r', target)"
    "t = ''[None]('' @ target @ '')''"
    by (auto simp: process_link_def markdown_link_def split: option.splits sum.splits)
  with 1 show ?thesis by blast
qed

theorem link_without_string_shows_None_witness:
  "\<exists>content' result.
     convert_urls_to_markdown example_env
       (Tag ''div'' []
          [Tag ''a'' [(''href'', ''about=puzzle'')]
             [NavigableString ''the '', Tag ''b'' [] [NavigableString ''puzzle'']],
           Tag ''a'' [(''href'', ''problem=1'')] []])
       = Inr (content', result)
     \<and> visible_at content' [0]
         = Some (NavigableString ''[None](https://projecteuler.net/about=puzzle)'')
     \<and> visible_at content' [1]
         = Some (NavigableString ''[None](https://projecteuler.net/problem=1)'')"
proof -
  let ?a = "Tag ''a'' [(''href'', ''about=puzzle'')]
              [NavigableString ''the '', Tag ''b'' [] [NavigableString ''puzzle'']]"
  let ?b = "Tag ''a'' [(''href'', ''problem=1'')] []"
  let ?content = "Tag ''div'' [] [?a, ?b]"
  let ?content' = "Tag ''div'' []
                    [NavigableString ''[None](https://projecteuler.net/about=puzzle)'',
                     NavigableString ''[None](https://projecteuler.net/problem=1)'']"
  have 1: "convert_urls_to_markdown example_env ?content = Inr (?content', None)"
    by (simp add: resolver_defs)
  have 2: "visible_at ?content [0] = Some ?a" "visible_at ?content [1] = Some ?b" by simp_all
  have 3: "length [NavigableString ''the '', Tag ''b'' [] [NavigableString ''puzzle'']] \<noteq> 1"
    "length ([] :: node list) \<noteq> 1" by simp_all
  from link_without_string_shows_None [OF 1 2(1) 3(1)]
    link_without_string_shows_None [OF 1 2(2) 3(2)]
  have "visible_at ?content' [0]
          = Some (NavigableString ''[None](https://projecteuler.net/about=puzzle)'')"
    "visible_at ?content' [1]
          = Some (NavigableString ''[None](https://projecteuler.net/problem=1)'')"
    by simp_all
  with 1 show ?thesis by blast
qed

subsection \<open>The claims on the whole call\<close>

text \<open>
  Claim C3. When the loop reaches a link whose \<^verbatim>\<open>href\<close> matches none of the three
  expressions (the links before it were processed without exception), the call raises
  \<^verbatim>\<open>NotImplementedError\<close> with a message that ends with this \<^verbatim>\<open>href\<close>. The
  links \<open>after\<close> have no part in the result: none of them is processed.
\<close>

theorem unknown_link_raises:
  assumes "find_all content ''a'' = before @ link # after"
    and "convert_links env [] before = Inr (rc, texts)"
    and "get link ''href'' = Some url"
    and "CHALLENGE_URL_REGEX url = None" and "RESOURCE_URL_REGEX url = None"
    and "ABOUT_URL_REGEX url = None"
  shows "convert_urls_to_markdown env content =
           Inl (NotImplementedError (''A URL was found to an unknown resource type: '' @ url))"
proof -
  have "convert_links env [] (before @ link # after) =
          Inl (NotImplementedError (''A URL was found to an unknown resource type: '' @ url))"
    using assms(2) process_link_unknown [OF assms(3-6), of env rc]
    by (simp add: convert_links_append)
  then show ?thesis
    using assms(1) by (intro convert_urls_to_markdown_Inl) auto
qed

theorem unknown_link_raises_witness:
  "convert_urls_to_markdown example_env
     (Tag ''div'' []
        [Tag ''a'' [(''href'', ''problem=1'')] [NavigableString ''one''],
         Tag ''a'' [(''href'', ''mailto:test@example.com'')] [NavigableString ''mail''],
         Tag ''a'' [(''href'', ''images/x.png'')] [NavigableString ''x'']])
   = Inl (NotImplementedError
            ''A URL was found to an unknown resource type: mailto:test@example.com'')"
proof -
  let ?one = "Tag ''a'' [(''href'', ''problem=1'')] [NavigableString ''one'']"
  let ?mail = "Tag ''a'' [(''href'', ''mailto:test@example.com'')] [NavigableString ''mail'']"
  let ?x = "Tag ''a'' [(''href'', ''images/x.png'')] [NavigableString ''x'']"
  let ?content = "Tag ''div'' [] [?one, ?mail, ?x]"
  have 1: "find_all ?content ''a'' = [?one] @ ?mail # [?x]" by simp
  have 2: "convert_links example_env [] [?one]
             = Inr ([], [''[one](https://projecteuler.net/problem=1)''])"
    by (simp add: resolver_defs)
  have 3: "get ?mail ''href'' = Some ''mailto:test@example.com''" by simp
  have 4: "CHALLENGE_URL_REGEX ''mailto:test@example.com'' = None"
    "RESOURCE_URL_REGEX ''mailto:test@example.com'' = None"
    "ABOUT_URL_REGEX ''mailto:test@example.com'' = None"
    by (simp_all add: resolver_defs)
  from unknown_link_raises [OF 1 2 3 4] show ?thesis by simp
qed

text \<open>
  Claim C2. A block with two resource links whose file names are the same after
  sanitising never returns a dictionary: the call ends with an exception. When the
  loop reaches the second of the two links (no link before it raised), the exception
  is the \<^verbatim>\<open>KeyError\<close> that names the file; the earlier entry is not overwritten,
  and the links \<open>after\<close> have no part in the result.
\<close>

theorem name_collision_raises:
  assumes "find_all content ''a'' = before @ link1 # between @ link2 # after"
    and "get link1 ''href'' = Some url1" and "RESOURCE_URL_REGEX url1 = Some filename1"
    and "get link2 ''href'' = Some url2" and "RESOURCE_URL_REGEX url2 = Some filename2"
    and "sanitise_file_name env filename1 = sanitise_file_name env filename2"
  shows "(\<exists>e. convert_urls_to_markdown env content = Inl e)
       \<and> (\<forall>rc texts. convert_links env [] (before @ link1 # between) = Inr (rc, texts) \<longrightarrow>
            convert_urls_to_markdown env content =
              Inl (KeyError (''Multiple resources found with the name ''
                               @ sanitise_file_name env filename2)))"
proof -
  have links: "find_all content ''a'' = (before @ link1 # between) @ link2 # after"
    using assms(1) by simp
  have specific: "convert_urls_to_markdown env content =
              Inl (KeyError (''Multiple resources found with the name ''
                               @ sanitise_file_name env filename2))"
    if "convert_links env [] (before @ link1 # between) = Inr (rc, texts)" for rc texts
    using convert_links_collision [OF that assms(2-6), of after] links
    by (intro convert_urls_to_markdown_Inl) auto
  have "\<exists>e. convert_urls_to_markdown env content = Inl e"
  proof (cases "convert_links env [] (before @ link1 # between)")
    case (Inl e)
    then have "convert_links env [] (find_all content ''a'') = Inl e"
      unfolding links by (simp add: convert_links_append del: append_assoc)
    then have "convert_urls_to_markdown env content = Inl e"
      using links by (intro convert_urls_to_markdown_Inl) auto
    then show ?thesis by blast
  next
    case (Inr p)
    then show ?thesis using specific [of "fst p" "snd p"] by auto
  qed
  with specific show ?thesis by blast
qed

theorem name_collision_raises_witness:
  "convert_urls_to_markdown example_env
     (Tag ''div'' []
        [Tag ''a'' [(''href'', ''images/x.png'')] [NavigableString ''first''],
         NavigableString '' and '',
         Tag ''a'' [(''href'', ''resources/a/x .png'')] [NavigableString ''second''],
         Tag ''a'' [(''href'', ''mailto:test@example.com'')] [NavigableString ''mail'']])
   = Inl (KeyError ''Multiple resources found with the name x.png'')"
proof -
  let ?first = "Tag ''a'' [(''href'', ''images/x.png'')] [NavigableString ''first'']"
  let ?second = "Tag ''a'' [(''href'', ''resources/a/x .png'')] [NavigableString ''second'']"
  let ?mail = "Tag ''a'' [(''href'', ''mailto:test@example.com'')] [NavigableString ''mail'']"
  let ?content = "Tag ''div'' [] [?first, NavigableString '' and '', ?second, ?mail]"
  have 1: "find_all ?content ''a'' = [] @ ?first # [] @ ?second # [?mail]" by simp
  have 2: "get ?first ''href'' = Some ''images/x.png''"
    "RESOURCE_URL_REGEX ''images/x.png'' = Some ''x.png''"
    by (simp_all add: resolver_defs)
  have 3: "get ?second ''href'' = Some ''resources/a/x .png''"
    "RESOURCE_URL_REGEX ''resources/a/x .png'' = Some ''x .png''"
    by (simp_all add: resolver_defs)
  have 4: "sanitise_file_name example_env ''x.png'' = sanitise_file_name example_env ''x .png''"
    by (simp add: example_env_def)
  have 5: "convert_links example_env [] ([] @ ?first # [])
             = Inr ([(''x.png'', ''https://projecteuler.net/images/x.png'')],
                    [''[first](./x.png)''])"
    by (simp add: resolver_defs)
  from name_collision_raises [OF 1 2 3 4] 5 show ?thesis
    by (simp add: example_env_def)
qed

text \<open>
  Claim C6. When the call returns, the returned value is \<^verbatim>\<open>None\<close> exactly when no
  link of the block is a resource reference, and a returned dictionary is never empty:
  the two outcomes cannot be mistaken for one another.
\<close>

theorem manifest_absent_iff_no_resource:
  assumes "convert_urls_to_markdown env content = Inr (content', result)"
  shows "(result = None \<longleftrightarrow> (\<forall>link\<in>set (find_all content ''a''). \<not> resource_reference link))
       \<and> (\<forall>remote_content. result = Some remote_content \<longrightarrow> remote_content \<noteq> [])"
proof -
  from assms obtain remote_content texts where
    run: "convert_links env [] (find_all content ''a'') = Inr (remote_content, texts)" and
    res: "result = (if remote_content = [] then None else Some remote_content)"
    by (rule convert_urls_to_markdown_Inr)
  from convert_links_manifest [OF run] res show ?thesis
    by (auto split: if_splits)
qed

theorem manifest_absent_iff_no_resource_witness:
  "\<not> resource_reference (Tag ''a'' [(''href'', ''problem=1'')] [NavigableString ''one''])
   \<and> resource_reference (Tag ''a'' [(''href'', ''images/x.png'')] [NavigableString ''x''])"
proof -
  let ?one = "Tag ''a'' [(''href'', ''problem=1'')] [NavigableString ''one'']"
  let ?x = "Tag ''a'' [(''href'', ''images/x.png'')] [NavigableString ''x'']"
  have 1: "convert_urls_to_markdown example_env (Tag ''div'' [] [?one]) =
             Inr (Tag ''div'' [] [NavigableString ''[one](https://projecteuler.net/problem=1)''],
                  None)"
    by (simp add: resolver_defs)
  have 2: "convert_urls_to_markdown example_env (Tag ''div'' [] [?one, ?x]) =
             Inr (Tag ''div'' [] [NavigableString ''[one](https://projecteuler.net/problem=1)'',
                                  NavigableString ''[x](./x.png)''],
                  Some [(''x.png'', ''https://projecteuler.net/images/x.png'')])"
    by (simp add: resolver_defs)
  from manifest_absent_iff_no_resource [OF 1] have "\<not> resource_reference ?one"
    by simp
  moreover from manifest_absent_iff_no_resource [OF 2]
  have "resource_reference ?one \<or> resource_reference ?x"
    by simp
  ultimately show ?thesis by blast
qed

section \<open>Properties of the text sanitiser\<close>

subsection \<open>Line breaks\<close>

declare str_replace.simps [simp del] re_sub.simps [simp del]

lemma str_replace_char:
  "str_replace [x] new s = concat (map (\<lambda>c. if c = x then new else [c]) s)"
proof (induction s)
  case Nil
  show ?case by (simp add: str_replace.simps)
next
  case (Cons c cs)
  show ?case
  proof (cases "c = x")
    case True
    then have "str_replace [x] new (c # cs) = new @ str_replace [x] new cs"
      by (subst str_replace.simps) simp
    with True Cons show ?thesis by simp
  next
    case False
    then have "str_replace [x] new (c # cs) = c # str_replace [x] new cs"
      by (subst str_replace.simps) simp
    with False Cons show ?thesis by simp
  qed
qed

text \<open>
  Claim C8. With the workaround flag false, \<open>sanitise_tag_text\<close> returns the text of
  the block in which every line feed has become two spaces and a line feed, and every
  other character is copied as it is: nothing else is changed, whatever the text
  contains.
\<close>

theorem sanitise_tag_text_plain:
  "sanitise_tag_text description False =
     concat (map (\<lambda>c. if c = newline then [CHR '' '', CHR '' '', newline] else [c])
                 (get_text description))"
  by (simp add: sanitise_tag_text_def str_replace_char)

text \<open>
  The two inputs named in the claim: \<^verbatim>\<open>"line one\nline two"\<close>, and a text with the
  \<^verbatim>\<open>\operatorname\<close> macro, which stays as it is when the flag is false.
\<close>

theorem sanitise_tag_text_plain_witness:
  "sanitise_tag_text (NavigableString (''line one'' @ [newline] @ ''line two'')) False
     = ''line one  '' @ [newline] @ ''line two''
   \<and> sanitise_tag_text
       (Tag ''p'' [] [NavigableString (backslash # ''operatorname{foo}(x)=1'')]) False
     = backslash # ''operatorname{foo}(x)=1''"
  using sanitise_tag_text_plain [of "NavigableString (''line one'' @ [newline] @ ''line two'')"]
    sanitise_tag_text_plain
      [of "Tag ''p'' [] [NavigableString (backslash # ''operatorname{foo}(x)=1'')]"]
  by simp

subsection \<open>The workaround for the operator name\<close>

lemma match_B_span:
  assumes "b \<noteq> []" and "newline \<notin> set b" and "CHR ''='' \<notin> set (tl b)"
  shows "match_B acc (b @ ''='' @ post) = Some (acc @ b, post)"
  using assms
proof (induction b arbitrary: acc)
  case Nil
  then show ?case by simp
next
  case (Cons c cs)
  show ?case
  proof (cases cs)
    case Nil
    with Cons.prems show ?thesis by simp
  next
    case (Cons d ds)
    with Cons.prems have "strip_prefix ''='' (cs @ ''='' @ post) = None" by auto
    moreover from Cons Cons.prems Cons.IH [of "acc @ [c]"]
    have "match_B (acc @ [c]) (cs @ ''='' @ post) = Some (acc @ c # cs, post)" by auto
    ultimately show ?thesis using Cons.prems by auto
  qed
qed

lemma match_A_span:
  assumes "a \<noteq> []" and "newline \<notin> set a" and "CHR ''}'' \<notin> set (tl a)"
    and "match_B [] r = Some (b, post)"
  shows "match_A acc (a @ ''}'' @ r) = Some (acc @ a, b, post)"
  using assms
proof (induction a arbitrary: acc)
  case Nil
  then show ?case by simp
next
  case (Cons c cs)
  show ?case
  proof (cases cs)
    case Nil
    with Cons.prems show ?thesis by simp
  next
    case (Cons d ds)
    with Cons.prems have "strip_prefix ''}'' (cs @ ''}'' @ r) = None" by auto
    moreover from Cons Cons.prems Cons.IH [of "acc @ [c]"]
    have "match_A (acc @ [c]) (cs @ ''}'' @ r) = Some (acc @ c # cs, b, post)" by auto
    ultimately show ?thesis using Cons.prems by auto
  qed
qed

text \<open>
  The groups of a match: the first ends at the first closing brace behind its first
  character, the second at the first equals sign behind its first character.
\<close>

lemma pattern_match_occurrence:
  assumes "a \<noteq> []" and "newline \<notin> set a" and "CHR ''}'' \<notin> set (tl a)"
    and "b \<noteq> []" and "newline \<notin> set b" and "CHR ''='' \<notin> set (tl b)"
  shows "pattern_match (backslash # ''operatorname{'' @ a @ ''}'' @ b @ ''='' @ post)
           = Some (a, b, post)"
proof -
  have "match_B [] (b @ ''='' @ post) = Some (b, post)"
    using match_B_span [OF assms(4-6), of "[]" post] by simp
  from match_A_span [OF assms(1-3) this, of "[]"]
  have "match_A [] (a @ ''}'' @ b @ ''='' @ post) = Some (a, b, post)" by simp
  moreover have "strip_prefix (backslash # ''operatorname{'')
                   ((backslash # ''operatorname{'') @ a @ ''}'' @ b @ ''='' @ post)
                 = Some (a @ ''}'' @ b @ ''='' @ post)"
    by (rule strip_prefix_append)
  ultimately show ?thesis
    by (simp add: pattern_match_def del: strip_prefix.simps)
qed

lemma re_sub_unmatched: "unmatched pre s \<Longrightarrow> re_sub (pre @ s) = pre @ re_sub s"
proof (induction pre)
  case Nil
  then show ?case by simp
next
  case (Cons c cs)
  then have "pattern_match (c # cs @ s) = None" and "re_sub (cs @ s) = cs @ re_sub s"
    by auto
  then show ?case by (subst re_sub.simps) simp
qed

lemma strip_prefix_shorter_literal:
  assumes "strip_prefix (p @ q) s = Some r"
  shows "strip_prefix p s = Some (q @ r)"
proof -
  from assms have "s = p @ q @ r" by (auto dest: strip_prefix_Some)
  then show ?thesis by (simp add: strip_prefix_append)
qed

lemma pattern_match_macro:
  assumes "pattern_match s \<noteq> None"
  shows "strip_prefix (backslash # ''operatorname'') s \<noteq> None"
proof -
  from assms obtain r where "strip_prefix ((backslash # ''operatorname'') @ ''{'') s = Some r"
    by (auto simp: pattern_match_def split: option.splits)
  from strip_prefix_shorter_literal [OF this] show ?thesis by simp
qed

text \<open>
  The test \<^verbatim>\<open>"\\operatorname" in description_text\<close> changes no result: a text
  without the macro has no match.
\<close>

lemma re_sub_without_macro:
  "\<not> contains (backslash # ''operatorname'') s \<Longrightarrow> re_sub s = s"
proof (induction s)
  case Nil
  show ?case by (subst re_sub.simps) (simp add: pattern_match_def)
next
  case (Cons c cs)
  from Cons.prems have no: "strip_prefix (backslash # ''operatorname'') (c # cs) = None"
    and "\<not> contains (backslash # ''operatorname'') cs"
    by (simp_all del: strip_prefix.simps)
  with Cons.IH have rest: "re_sub cs = cs" by blast
  from no pattern_match_macro [of "c # cs"] have "pattern_match (c # cs) = None"
    by blast
  with rest show ?case by (subst re_sub.simps) simp
qed

lemma sanitise_tag_text_workaround:
  "sanitise_tag_text description True =
     re_sub (str_replace [newline] [CHR '' '', CHR '' '', newline] (get_text description))"
  by (simp add: sanitise_tag_text_def Let_def re_sub_without_macro)

lemma sanitise_tag_text_workaround_text:
  "sanitise_tag_text (NavigableString s) True
     = re_sub (sanitise_tag_text (NavigableString s) False)"
  by (simp add: sanitise_tag_text_workaround) (simp add: sanitise_tag_text_def)

lemma str_replace_char_append:
  "str_replace [x] new (s @ t) = str_replace [x] new s @ str_replace [x] new t"
  by (simp add: str_replace_char)

lemma str_replace_char_absent: "x \<notin> set s \<Longrightarrow> str_replace [x] new s = s"
  by (induction s) (auto simp: str_replace_char)

text \<open>
  Where the scan reaches an occurrence of \<^verbatim>\<open>\operatorname{A}B=\<close> (the pattern
  matches nowhere in the text before it), with \<open>A\<close> and \<open>B\<close> not empty and without
  line feed, \<open>A\<close> without closing brace and \<open>B\<close> without equals sign, the occurrence
  becomes \<^verbatim>\<open>\mathop{\text{A}}B=\<close> with \<open>A\<close> and \<open>B\<close> as they were, the text before
  it only gets its line breaks, and the scan goes on behind the equals sign.
\<close>

lemma sanitise_tag_text_first_match:
  assumes "get_text description =
             pre @ backslash # ''operatorname{'' @ a @ ''}'' @ b @ ''='' @ post"
    and "a \<noteq> []" and "newline \<notin> set a" and "CHR ''}'' \<notin> set a"
    and "b \<noteq> []" and "newline \<notin> set b" and "CHR ''='' \<notin> set b"
    and "unmatched (sanitise_tag_text (NavigableString pre) False)
           (backslash # ''operatorname{'' @ a @ ''}'' @ b @ ''=''
              @ sanitise_tag_text (NavigableString post) False)"
  shows "sanitise_tag_text description True =
           sanitise_tag_text (NavigableString pre) False
           @ backslash # ''mathop{'' @ backslash # ''text{'' @ a @ ''}}'' @ b @ ''=''
           @ sanitise_tag_text (NavigableString post) True"
proof -
  let ?nl = "str_replace [newline] [CHR '' '', CHR '' '', newline]"
  let ?occ = "backslash # ''operatorname{'' @ a @ ''}'' @ b @ ''=''"
  have plain: "sanitise_tag_text (NavigableString s) False = ?nl s" for s
    by (simp add: sanitise_tag_text_def)
  have "backslash # ''operatorname{'' @ a @ ''}'' @ b @ ''='' @ post = ?occ @ post" by simp
  moreover have "?nl ?occ = ?occ"
    using assms(3,6) by (intro str_replace_char_absent) auto
  ultimately have "?nl (get_text description) = ?nl pre @ ?occ @ ?nl post"
    unfolding assms(1) by (simp only: str_replace_char_append)
  then have "sanitise_tag_text description True = re_sub (?nl pre @ ?occ @ ?nl post)"
    by (simp only: sanitise_tag_text_workaround)
  also have "\<dots> = ?nl pre @ re_sub (?occ @ ?nl post)"
    using assms(8) unfolding plain by (intro re_sub_unmatched) simp
  also have "re_sub (?occ @ ?nl post) = replacement a b @ re_sub (?nl post)"
  proof -
    have "CHR ''}'' \<notin> set (tl a)" "CHR ''='' \<notin> set (tl b)"
      using assms(2,4,5,7) by (auto dest: list.set_sel(2))
    from pattern_match_occurrence [OF assms(2,3) this(1) assms(5,6) this(2), of "?nl post"]
    have "pattern_match (?occ @ ?nl post) = Some (a, b, ?nl post)" by simp
    then show ?thesis by (subst re_sub.simps) simp
  qed
  finally show ?thesis
    by (simp add: replacement_def plain sanitise_tag_text_workaround_text)
qed

text \<open>
  Claim C9. With the workaround flag true, every occurrence of
  \<^verbatim>\<open>\operatorname{A}B=\<close> is to become \<^verbatim>\<open>\mathop{\text{A}}B=\<close>. The function
  does not do this for every occurrence: a match takes the text up to the next equals
  sign with it, and an occurrence that starts inside that text is copied unchanged. In
  \<^verbatim>\<open>\operatorname{lcm}(a,b)\cdot\operatorname{gcd}(a,b)=ab\<close> only the first macro
  is rewritten, and the text \<^verbatim>\<open>\operatorname{a}b\operatorname{foo}(x)=\<close> comes out
  with the input of the claim, \<^verbatim>\<open>\operatorname{foo}(x)=\<close>, still in it.
\<close>

theorem operatorname_left_in_place:
  "sanitise_tag_text
     (NavigableString
        (backslash # ''operatorname{lcm}(a,b)'' @ backslash # ''cdot''
           @ backslash # ''operatorname{gcd}(a,b)=ab'')) True
     = backslash # ''mathop{'' @ backslash # ''text{lcm}}(a,b)'' @ backslash # ''cdot''
         @ backslash # ''operatorname{gcd}(a,b)=ab''
   \<and> sanitise_tag_text
       (NavigableString
          (backslash # ''operatorname{lcm}(a,b)'' @ backslash # ''cdot''
             @ backslash # ''operatorname{gcd}(a,b)=ab'')) True
     \<noteq> backslash # ''mathop{'' @ backslash # ''text{lcm}}(a,b)'' @ backslash # ''cdot''
         @ backslash # ''mathop{'' @ backslash # ''text{gcd}}(a,b)=ab''
   \<and> sanitise_tag_text
       (NavigableString
          (backslash # ''operatorname{a}b'' @ backslash # ''operatorname{foo}(x)='')) True
     = backslash # ''mathop{'' @ backslash # ''text{a}}b''
       @ backslash # ''operatorname{foo}(x)=''"
  by (simp add: sanitise_tag_text_def str_replace_char re_sub.simps pattern_match_def
                replacement_def)

section \<open>Properties of the file name sanitiser\<close>

text \<open>
  Claim C7. The sanitiser of the specification is idempotent, whatever further
  characters it is chosen to strip: sanitising a sanitised name changes nothing. It is
  a function, so equal names have equal results.
\<close>

theorem sanitise_file_name_idempotent:
  "sanitise_file_name_spec also_unsafe (sanitise_file_name_spec also_unsafe x)
     = sanitise_file_name_spec also_unsafe x
   \<and> (x = y \<longrightarrow> sanitise_file_name_spec also_unsafe x = sanitise_file_name_spec also_unsafe y)"
  by (simp add: sanitise_file_name_spec_def)

theorem sanitise_file_name_idempotent_witness:
  "sanitise_file_name_spec (\<lambda>c. c = CHR ''#'') ''my plot/#1.png'' = ''myplot1.png''
   \<and> sanitise_file_name_spec (\<lambda>c. c = CHR ''#'') ''myplot1.png'' = ''myplot1.png''"
  using sanitise_file_name_idempotent
          [of "\<lambda>c. c = CHR ''#''" "''my plot/#1.png''" "''my plot/#1.png''"]
  by (simp add: sanitise_file_name_spec_def unsafe_character_def)

end
